theory Spec2Isabelle
  imports Main "HOL-Library.Multiset"
begin

section \<open>Time\<close>

text \<open>
  A \<open>datetime\<close> is the number of microseconds since \<open>datetime.min\<close>
  (0001-01-01 00:00:00), an \<open>int\<close> between 0 and \<open>datetime_max\<close>
  (9999-12-31 23:59:59.999999). \<open>strftime("%Y-%m-%d %H:%M:%S")\<close> keeps the whole
  seconds and drops the microseconds, so the stored text is the number of whole
  seconds. It writes the year without padding, and \<open>strptime\<close> wants four digits
  for \<open>%Y\<close>: for a year below 1000 (before \<open>year_1000\<close> seconds) \<open>strptime\<close> raises
  ValueError, which is \<open>None\<close>; otherwise it reads the seconds back with
  microsecond 0.
\<close>

definition datetime_max :: int where
  "datetime_max = 315537897599999999"

definition year_1000 :: int where
  "year_1000 = 31525372800"

definition strftime :: "int \<Rightarrow> int" where
  "strftime t = t div 1000000"

definition strptime :: "int \<Rightarrow> int option" where
  "strptime s = (if s < year_1000 then None else Some (s * 1000000))"

text \<open>\<open>timedelta(minutes=n)\<close> raises OverflowError beyond 999999999 days.\<close>

definition timedelta_minutes :: "int \<Rightarrow> int option" where
  "timedelta_minutes n =
     (if - 999999999 \<le> n div 1440 \<and> n div 1440 \<le> 999999999
      then Some (n * 60000000) else None)"

text \<open>\<open>datetime + timedelta\<close> raises OverflowError outside the datetime range.\<close>

definition datetime_add :: "int \<Rightarrow> int \<Rightarrow> int option" where
  "datetime_add t d = (if 0 \<le> t + d \<and> t + d \<le> datetime_max then Some (t + d) else None)"

section \<open>Text\<close>

text \<open>
  A \<open>str\<close> is the list of its Unicode code points; \<open>ustr\<close> writes one from an
  ASCII literal. In this section 32 is the space, 124 the bar \<open>|\<close>, 43 and 45 the
  signs, 95 the underscore and 48 to 57 the ASCII digits.
\<close>

type_synonym str = "int list"

definition ustr :: "string \<Rightarrow> str" where
  "ustr s = map of_char s"

text \<open>The code points \<open>str.isspace\<close> holds for: what \<open>str.strip()\<close> removes.\<close>

definition isspace :: "int \<Rightarrow> bool" where
  "isspace c =
     (9 \<le> c \<and> c \<le> 13 \<or> 28 \<le> c \<and> c \<le> 32 \<or> c = 133 \<or> c = 160 \<or> c = 5760
      \<or> 8192 \<le> c \<and> c \<le> 8202 \<or> c = 8232 \<or> c = 8233 \<or> c = 8239 \<or> c = 8287
      \<or> c = 12288)"

definition strip :: "str \<Rightarrow> str" where
  "strip s = rev (dropWhile isspace (rev (dropWhile isspace s)))"

text \<open>\<open>split_max c n s\<close> is \<open>s.split(c, n)\<close>: it cuts at the first \<open>n\<close> separators.\<close>

fun split_max :: "int \<Rightarrow> nat \<Rightarrow> str \<Rightarrow> str list" where
  "split_max c 0 s = [s]"
| "split_max c (Suc n) s =
     (if c \<in> set s
      then takeWhile (\<lambda>x. x \<noteq> c) s # split_max c n (tl (dropWhile (\<lambda>x. x \<noteq> c) s))
      else [s])"

text \<open>
  \<open>int(s)\<close> in base 10 first rewrites a text that is not ASCII: a code point below
  127 stays, other white space becomes a space, a decimal digit of another script
  becomes the ASCII digit of its value, and any other code point ends in
  ValueError (\<open>None\<close>). The decimal digits come in runs of ten; \<open>decimal_zeros\<close> are
  the zeros of the runs (Unicode 14.0, the data of CPython 3.11).
\<close>

definition decimal_zeros :: "int list" where
  "decimal_zeros =
     [48, 1632, 1776, 1984, 2406, 2534, 2662, 2790, 2918, 3046, 3174, 3302, 3430, 3558,
      3664, 3792, 3872, 4160, 4240, 6112, 6160, 6470, 6608, 6784, 6800, 6992, 7088, 7232,
      7248, 42528, 43216, 43264, 43472, 43504, 43600, 44016, 65296, 66720, 68912, 69734,
      69872, 69942, 70096, 70384, 70736, 70864, 71248, 71360, 71472, 71904, 72016, 72784,
      73040, 73120, 92768, 92864, 93008, 120782, 120792, 120802, 120812, 120822, 123200,
      123632, 125264, 130032]"

definition to_decimal :: "int \<Rightarrow> int option" where
  "to_decimal c =
     (case filter (\<lambda>z. z \<le> c \<and> c \<le> z + 9) decimal_zeros of
        [] \<Rightarrow> None
      | z # zs \<Rightarrow> Some (c - z))"

fun to_ascii :: "str \<Rightarrow> str option" where
  "to_ascii [] = Some []"
| "to_ascii (c # cs) =
     (if c < 127 then map_option ((#) c) (to_ascii cs)
      else if isspace c then map_option ((#) 32) (to_ascii cs)
      else (case to_decimal c of
              None \<Rightarrow> None
            | Some d \<Rightarrow> map_option ((#) (48 + d)) (to_ascii cs)))"

text \<open>
  The ASCII text is then read: white space (tab to carriage return, and the space)
  on both sides, an optional sign, and digits, each optionally preceded by one
  underscore after the first.
\<close>

definition ascii_space :: "int \<Rightarrow> bool" where
  "ascii_space c = (9 \<le> c \<and> c \<le> 13 \<or> c = 32)"

definition is_digit :: "int \<Rightarrow> bool" where
  "is_digit c = (48 \<le> c \<and> c \<le> 57)"

definition digit_val :: "int \<Rightarrow> int" where
  "digit_val c = c - 48"

fun parse_digits :: "int \<Rightarrow> str \<Rightarrow> int option" where
  "parse_digits acc [] = Some acc"
| "parse_digits acc [c] = (if is_digit c then Some (acc * 10 + digit_val c) else None)"
| "parse_digits acc (c # d # cs) =
     (if is_digit c then parse_digits (acc * 10 + digit_val c) (d # cs)
      else if c = 95 \<and> is_digit d then parse_digits (acc * 10 + digit_val d) cs
      else None)"

text \<open>
  A literal of more than 4300 digits (the default of \<open>sys.set_int_max_str_digits\<close>,
  leading zeros counted, underscores not) is refused with ValueError.
\<close>

definition parse_unsigned :: "str \<Rightarrow> int option" where
  "parse_unsigned s =
     (case s of [] \<Rightarrow> None
      | d # ds \<Rightarrow>
          if is_digit d \<and> int (length (filter is_digit s)) \<le> 4300
          then parse_digits (digit_val d) ds else None)"

definition parse_ascii :: "str \<Rightarrow> int option" where
  "parse_ascii s =
     (case rev (dropWhile ascii_space (rev (dropWhile ascii_space s))) of
        [] \<Rightarrow> None
      | c # cs \<Rightarrow>
          if c = 45 then map_option uminus (parse_unsigned cs)
          else if c = 43 then parse_unsigned cs
          else parse_unsigned (c # cs))"

text \<open>\<open>int(s)\<close>: \<open>None\<close> is the ValueError.\<close>

definition py_int :: "str \<Rightarrow> int option" where
  "py_int s = (case to_ascii s of None \<Rightarrow> None | Some a \<Rightarrow> parse_ascii a)"

section \<open>The post queue\<close>

record post_item =
  title :: str
  message :: str
  link :: str
  time :: int

datatype post_reply = InvalidFormat | Scheduled int

text \<open>
  The handler of \<open>/post\<close>, on the message text, the reading of \<open>datetime.now()\<close> and
  \<open>post_queue\<close>. Every exception of the \<open>try\<close> block (a failed unpacking, the
  ValueError of \<open>int\<close>, an OverflowError) ends in the same reply.
\<close>

definition post :: "str option \<Rightarrow> int \<Rightarrow> post_item list \<Rightarrow> post_item list \<times> post_reply" where
  "post text now post_queue =
     (case text of
        None \<Rightarrow> (post_queue, InvalidFormat)
      | Some s \<Rightarrow>
          if s = [] \<or> 124 \<notin> set s then (post_queue, InvalidFormat)
          else
            (case split_max 32 1 s of
               [cmd, payload] \<Rightarrow>
                 (case map strip (split_max 124 3 payload) of
                    [t, m, l, minutes] \<Rightarrow>
                      (case py_int minutes of
                         None \<Rightarrow> (post_queue, InvalidFormat)
                       | Some n \<Rightarrow>
                           (case timedelta_minutes n of
                              None \<Rightarrow> (post_queue, InvalidFormat)
                            | Some d \<Rightarrow>
                                (case datetime_add now d of
                                   None \<Rightarrow> (post_queue, InvalidFormat)
                                 | Some schedule_time \<Rightarrow>
                                     (post_queue @
                                        [\<lparr>title = t, message = m, link = l,
                                          time = strftime schedule_time\<rparr>],
                                      Scheduled schedule_time))))
                  | _ \<Rightarrow> (post_queue, InvalidFormat))
             | _ \<Rightarrow> (post_queue, InvalidFormat)))"

text \<open>
  The handler of \<open>/queue\<close>. Its reply is kept as data: the numbered titles and
  times that the text lists.
\<close>

datatype queue_reply = QueueEmpty | ScheduledPosts "(nat \<times> str \<times> int) list"

definition queue :: "post_item list \<Rightarrow> post_item list \<times> queue_reply" where
  "queue post_queue =
     (if post_queue = [] then (post_queue, QueueEmpty)
      else (post_queue,
            ScheduledPosts (map (\<lambda>(i, item). (i + 1, title item, time item))
                                (enumerate 0 post_queue))))"

section \<open>The auto-post loop\<close>

text \<open>
  \<open>await context.bot.send_photo(...)\<close> is the one place where a tick gives up
  control. What happens there is given by the environment: the items that
  \<open>/post\<close> handlers append to \<open>post_queue\<close> meanwhile, and whether the call
  returns or raises. \<open>env k\<close> is the \<open>k\<close>-th such call of a tick.
\<close>

record await_ev =
  arrivals :: "post_item list"
  sent_ok :: bool

datatype tick_outcome =
  Completed | StrptimeRaised post_item | PublishRaised post_item | RemoveRaised post_item

record tick_result =
  queue_after :: "post_item list"
  attempted :: "post_item list"
  published :: "post_item list"
  arrived :: "post_item list"
  outcome :: tick_outcome

text \<open>
  The \<open>for\<close> loop over the copy \<open>post_queue[:]\<close>: the rest of the copy, the number
  of \<open>send_photo\<close> calls made so far and the live \<open>post_queue\<close>. The ValueError of
  \<open>strptime\<close> and an exception of \<open>send_photo\<close> leave the loop and end the tick.
  \<open>list.remove\<close> deletes the first equal element and raises ValueError when there
  is none.
\<close>

fun auto_post_items ::
  "int \<Rightarrow> (nat \<Rightarrow> await_ev) \<Rightarrow> post_item list \<Rightarrow> nat \<Rightarrow> post_item list \<Rightarrow> tick_result" where
  "auto_post_items now env [] k post_queue =
     \<lparr>queue_after = post_queue, attempted = [], published = [], arrived = [],
      outcome = Completed\<rparr>"
| "auto_post_items now env (post_item # rest) k post_queue =
     (case strptime (time post_item) of
        None \<Rightarrow>
          \<lparr>queue_after = post_queue, attempted = [], published = [], arrived = [],
           outcome = StrptimeRaised post_item\<rparr>
      | Some post_time \<Rightarrow>
          if now \<ge> post_time then
            (let q1 = post_queue @ arrivals (env k) in
             if sent_ok (env k) then
               (if post_item \<in> set q1 then
                  (let r = auto_post_items now env rest (Suc k) (remove1 post_item q1) in
                   r\<lparr>attempted := post_item # attempted r,
                     published := post_item # published r,
                     arrived := arrivals (env k) @ arrived r\<rparr>)
                else
                  \<lparr>queue_after = q1, attempted = [post_item], published = [post_item],
                   arrived = arrivals (env k), outcome = RemoveRaised post_item\<rparr>)
             else
               \<lparr>queue_after = q1, attempted = [post_item], published = [],
                arrived = arrivals (env k), outcome = PublishRaised post_item\<rparr>)
          else auto_post_items now env rest k post_queue)"

definition auto_post_loop :: "int \<Rightarrow> (nat \<Rightarrow> await_ev) \<Rightarrow> post_item list \<Rightarrow> tick_result" where
  "auto_post_loop now env post_queue = auto_post_items now env post_queue 0 post_queue"

text \<open>
  For the statements about a tick: the items \<open>strptime\<close> can read, the items that
  are due, and the due items of the part of the queue a tick gets to, which ends
  before the first item \<open>strptime\<close> cannot read.
\<close>

definition parses :: "post_item \<Rightarrow> bool" where
  "parses post_item = (strptime (time post_item) \<noteq> None)"

definition is_due :: "int \<Rightarrow> post_item \<Rightarrow> bool" where
  "is_due now post_item =
     (case strptime (time post_item) of None \<Rightarrow> False | Some post_time \<Rightarrow> now \<ge> post_time)"

definition due_items :: "int \<Rightarrow> post_item list \<Rightarrow> post_item list" where
  "due_items now post_queue = filter (is_due now) (takeWhile parses post_queue)"

text \<open>
  A run of the bot as far as \<open>post_queue\<close> goes: \<open>/post\<close> and \<open>/queue\<close> commands and
  ticks of the job queue, one after the other (a tick that raised is logged and the next tick
  runs as usual). The run records the items \<open>send_photo\<close> was called with, those
  for which it returned, and the items that were appended.
\<close>

datatype event = PostCmd "str option" int | QueueCmd | Tick int "nat \<Rightarrow> await_ev"

record run_result =
  final_queue :: "post_item list"
  selected :: "post_item list"
  delivered :: "post_item list"
  inserted :: "post_item list"
  outcomes :: "tick_outcome list"

fun run :: "event list \<Rightarrow> post_item list \<Rightarrow> run_result" where
  "run [] q =
     \<lparr>final_queue = q, selected = [], delivered = [], inserted = [], outcomes = []\<rparr>"
| "run (PostCmd text now # es) q =
     (let q1 = fst (post text now q); r = run es q1
      in r\<lparr>inserted := drop (length q) q1 @ inserted r\<rparr>)"
| "run (QueueCmd # es) q = run es (fst (queue q))"
| "run (Tick now env # es) q =
     (let t = auto_post_loop now env q; r = run es (queue_after t)
      in r\<lparr>selected := attempted t @ selected r,
           delivered := published t @ delivered r,
           inserted := arrived t @ inserted r,
           outcomes := outcome t # outcomes r\<rparr>)"

text \<open>The items of the ticks that ended in an exception of \<open>send_photo\<close>.\<close>

definition raised_items :: "tick_outcome list \<Rightarrow> post_item list" where
  "raised_items ocs =
     concat (map (\<lambda>oc. case oc of PublishRaised x \<Rightarrow> [x] | _ \<Rightarrow> []) ocs)"

section \<open>Voice generation\<close>

text \<open>
  The clock \<open>time.time()\<close> is read in microseconds. The environment gives, for the
  \<open>k\<close>-th status request, its response and its \<open>latency\<close>: the time from the end
  of the nominal two seconds of the sleep before it (from the start, for the
  first) to the moment its response has been read. \<open>StatusFailed\<close> is a request
  that raised (transport error or \<open>raise_for_status\<close>).
\<close>

datatype status_response = StatusFailed | StatusJson "string option" "string option"

record poll_ev =
  response :: status_response
  latency :: nat

datatype voice_error = SubmissionFailed | PollFailed | TimeoutError

datatype submit_response = SubmitFailed | SubmitOk string

record voice_run =
  result :: "voice_error + string option"
  polls :: nat
  finished :: int

definition reports_pending :: "poll_ev \<Rightarrow> bool" where
  "reports_pending e =
     (case response e of StatusFailed \<Rightarrow> False | StatusJson status url \<Rightarrow> status \<noteq> Some ''done'')"

function poll_loop :: "int \<Rightarrow> (nat \<Rightarrow> poll_ev) \<Rightarrow> int \<Rightarrow> nat \<Rightarrow> int \<Rightarrow> voice_run" where
  "poll_loop timeout env start k clock =
     (let clock1 = clock + int (latency (env k)) in
      case response (env k) of
        StatusFailed \<Rightarrow> \<lparr>result = Inl PollFailed, polls = Suc k, finished = clock1\<rparr>
      | StatusJson status download_url \<Rightarrow>
          if status = Some ''done''
          then \<lparr>result = Inr download_url, polls = Suc k, finished = clock1\<rparr>
          else if clock1 - start > timeout
          then \<lparr>result = Inl TimeoutError, polls = Suc k, finished = clock1\<rparr>
          else poll_loop timeout env start (Suc k) (clock1 + 2000000))"
  by pat_completeness auto
termination
  by (relation "measure (\<lambda>(timeout, env, start, k, clock). nat (timeout - (clock - start) + 2000001))")
     auto

declare poll_loop.simps [simp del]

definition generate_voice :: "submit_response \<Rightarrow> (nat \<Rightarrow> poll_ev) \<Rightarrow> int \<Rightarrow> int \<Rightarrow> voice_run" where
  "generate_voice submit env start timeout_seconds =
     (case submit of
        SubmitFailed \<Rightarrow> \<lparr>result = Inl SubmissionFailed, polls = 0, finished = start\<rparr>
      | SubmitOk clip_id \<Rightarrow> poll_loop (timeout_seconds * 1000000) env start 0 start)"

section \<open>Voice mode\<close>

type_synonym registry = "int \<rightharpoonup> bool"

definition voice_on :: "registry \<Rightarrow> int \<Rightarrow> registry" where
  "voice_on user_voice_mode user_id = user_voice_mode(user_id \<mapsto> True)"

definition voice_off :: "registry \<Rightarrow> int \<Rightarrow> registry" where
  "voice_off user_voice_mode user_id = user_voice_mode(user_id \<mapsto> False)"

text \<open>\<open>user_voice_mode.get(user_id, False)\<close>\<close>

definition voice_mode :: "registry \<Rightarrow> int \<Rightarrow> bool" where
  "voice_mode user_voice_mode user_id =
     (case user_voice_mode user_id of None \<Rightarrow> False | Some b \<Rightarrow> b)"

datatype message_reply = ReplyVoice "string option" | ReplyText string | HandlerRaised voice_error

text \<open>
  The message handler, with the chat completion as a parameter; it calls
  \<open>generate_voice\<close> with the default timeout of 30 seconds.
\<close>

definition handle_message ::
  "registry \<Rightarrow> int \<Rightarrow> string \<Rightarrow> submit_response \<Rightarrow> (nat \<Rightarrow> poll_ev) \<Rightarrow> int \<Rightarrow>
   (string \<Rightarrow> string) \<Rightarrow> registry \<times> message_reply" where
  "handle_message user_voice_mode user_id text submit env start chat_with_openai =
     (if voice_mode user_voice_mode user_id then
        (case result (generate_voice submit env start 30) of
           Inl e \<Rightarrow> (user_voice_mode, HandlerRaised e)
         | Inr voice_url \<Rightarrow> (user_voice_mode, ReplyVoice voice_url))
      else (user_voice_mode, ReplyText (chat_with_openai text)))"

section \<open>The voice-mode registry and the queue listing\<close>

text \<open>
  C9. After \<open>/voice_on\<close> a user's mode reads true, after \<open>/voice_off\<close> it reads false,
  and for a user who is not in the registry it reads false; switching the mode of
  another user leaves it as it was. Reading the mode in the message handler
  leaves the registry unchanged.
\<close>

theorem mode_registry:
  "voice_mode (voice_on m u) u \<and> \<not> voice_mode (voice_off m u) u
   \<and> \<not> voice_mode Map.empty u \<and> (u \<notin> dom m \<longrightarrow> \<not> voice_mode m u)
   \<and> (v \<noteq> u \<longrightarrow> voice_mode (voice_on m v) u = voice_mode m u
                  \<and> voice_mode (voice_off m v) u = voice_mode m u)
   \<and> fst (handle_message m u text submit env start chat) = m"
  by (auto simp: voice_mode_def voice_on_def voice_off_def handle_message_def
           split: sum.splits option.splits)

theorem mode_registry_witness:
  "(2::int) \<notin> dom (voice_on Map.empty 1) \<and> (1::int) \<noteq> 2
   \<and> \<not> voice_mode (voice_on Map.empty 1) 2
   \<and> voice_mode (voice_on (voice_on Map.empty 1) 1) 2 = voice_mode (voice_on Map.empty 1) 2"
  using mode_registry [of "voice_on Map.empty 1" 2 1]
  by (simp add: voice_on_def)

lemma queue_fst: "fst (queue q) = q"
  by (simp add: queue_def)

lemma run_queue_cmds: "run (replicate n QueueCmd @ es) q = run es q"
  by (induction n) (simp_all add: queue_fst)

lemma run_cong_prefix:
  "(\<And>q. run es q = run es' q) \<Longrightarrow> run (pre @ es) q = run (pre @ es') q"
proof (induction pre arbitrary: q)
  case Nil
  then show ?case by simp
next
  case (Cons e pre)
  then show ?case by (cases e) (simp_all add: Let_def)
qed

text \<open>
  C8. \<open>/queue\<close> leaves \<open>post_queue\<close> as it is, and any number of \<open>/queue\<close> commands
  anywhere in a run changes nothing of what the rest of the run does: the later
  ticks select, publish and remove the same items.
\<close>

theorem queue_pure_read:
  "fst (queue q) = q \<and> run (es1 @ replicate n QueueCmd @ es2) q = run (es1 @ es2) q"
  using run_cong_prefix [of "replicate n QueueCmd @ es2" es2 es1 q]
  by (simp add: queue_fst run_queue_cmds)

section \<open>One tick\<close>

lemma mset_sub_step:
  "mset (x # xs) \<subseteq># mset q \<Longrightarrow> mset xs \<subseteq># mset (remove1 x (q @ a))"
proof -
  assume a: "mset (x # xs) \<subseteq># mset q"
  then have "mset (x # xs) \<subseteq># mset (q @ a)" by (simp add: subset_mset.add_increasing2)
  then show ?thesis by (simp add: insert_subset_eq_iff)
qed

lemma mset_sub_skip: "mset (x # xs) \<subseteq># mset q \<Longrightarrow> mset xs \<subseteq># mset q"
  by (metis mset.simps(2) mset_subset_eq_insertD subset_mset.less_imp_le)

lemma mset_sub_head: "mset (x # xs) \<subseteq># mset q \<Longrightarrow> x \<in> set q"
  by (metis list.set_intros(1) mset_subset_eqD set_mset_mset)

lemma items_conservation:
  "mset xs \<subseteq># mset q \<Longrightarrow>
   (let r = auto_post_items now env xs k q in
      mset (queue_after r) + mset (published r) = mset q + mset (arrived r)
      \<and> (\<forall>x. outcome r \<noteq> RemoveRaised x))"
proof (induction xs arbitrary: k q)
  case Nil
  then show ?case by simp
next
  case (Cons x xs)
  note xq = mset_sub_head [OF Cons.prems]
  show ?case
  proof (cases "strptime (time x)")
    case None
    then show ?thesis by simp
  next
    case (Some t)
    show ?thesis
    proof (cases "t \<le> now")
      case False
      from Cons.IH [OF mset_sub_skip [OF Cons.prems]] Some False show ?thesis by simp
    next
      case True
      show ?thesis
      proof (cases "sent_ok (env k)")
        case False
        with Some True show ?thesis by simp
      next
        case ok: True
        from Cons.IH [OF mset_sub_step [OF Cons.prems], of "Suc k" "arrivals (env k)"]
          Some True ok xq
        show ?thesis by (simp add: Let_def)
      qed
    qed
  qed
qed

lemma items_attempted_due:
  "x \<in> set (attempted (auto_post_items now env xs k q)) \<Longrightarrow> is_due now x \<and> x \<in> set xs"
proof (induction xs arbitrary: k q)
  case Nil
  then show ?case by simp
next
  case (Cons y ys)
  show ?case
  proof (cases "strptime (time y)")
    case None
    with Cons.prems show ?thesis by simp
  next
    case (Some t)
    show ?thesis
    proof (cases "t \<le> now")
      case False
      with Cons.IH [of k q] Cons.prems Some show ?thesis by simp
    next
      case True
      then have due: "is_due now y" using Some by (simp add: is_due_def)
      show ?thesis
      proof (cases "sent_ok (env k) \<and> y \<in> set (q @ arrivals (env k))")
        case False
        with Cons.prems Some True due show ?thesis by (auto simp: Let_def split: if_splits)
      next
        case ok: True
        with Cons.IH [of "Suc k" "remove1 y (q @ arrivals (env k))"] Cons.prems Some True due
        show ?thesis by (auto simp: Let_def)
      qed
    qed
  qed
qed

lemma items_attempted_published:
  "attempted (auto_post_items now env xs k q) =
   published (auto_post_items now env xs k q) @
   (case outcome (auto_post_items now env xs k q) of PublishRaised x \<Rightarrow> [x] | _ \<Rightarrow> [])"
  by (induction xs arbitrary: k q) (auto simp: Let_def split: option.splits)

lemma items_raised_in_queue:
  "mset xs \<subseteq># mset q \<Longrightarrow> outcome (auto_post_items now env xs k q) = PublishRaised x
   \<Longrightarrow> x \<in> set (queue_after (auto_post_items now env xs k q))"
proof (induction xs arbitrary: k q)
  case Nil
  then show ?case by simp
next
  case (Cons y ys)
  note yq = mset_sub_head [OF Cons.prems(1)]
  show ?case
  proof (cases "strptime (time y)")
    case None
    with Cons.prems(2) show ?thesis by simp
  next
    case (Some t)
    show ?thesis
    proof (cases "t \<le> now")
      case False
      from Cons.IH [OF mset_sub_skip [OF Cons.prems(1)], of k] Cons.prems(2) Some False
      show ?thesis by simp
    next
      case True
      show ?thesis
      proof (cases "sent_ok (env k)")
        case False
        with Some True Cons.prems(2) yq show ?thesis by simp
      next
        case ok: True
        from Cons.IH [OF mset_sub_step [OF Cons.prems(1)], of "Suc k" "arrivals (env k)"]
          Cons.prems(2) Some True ok yq
        show ?thesis by (simp add: Let_def)
      qed
    qed
  qed
qed

lemma due_items_Cons:
  "due_items now (x # xs) =
     (case strptime (time x) of
        None \<Rightarrow> []
      | Some t \<Rightarrow> if t \<le> now then x # due_items now xs else due_items now xs)"
  by (cases "strptime (time x)") (simp_all add: due_items_def parses_def is_due_def)

lemma items_all_sent:
  assumes "\<forall>j. sent_ok (env j)" and "mset xs \<subseteq># mset q"
  shows "published (auto_post_items now env xs k q) = due_items now xs
       \<and> attempted (auto_post_items now env xs k q) = due_items now xs"
  using assms(2)
proof (induction xs arbitrary: k q)
  case Nil
  then show ?case by (simp add: due_items_def)
next
  case (Cons x xs)
  note xq = mset_sub_head [OF Cons.prems]
  show ?case
  proof (cases "strptime (time x)")
    case None
    then show ?thesis by (simp add: due_items_Cons)
  next
    case (Some t)
    show ?thesis
    proof (cases "t \<le> now")
      case False
      from Cons.IH [OF mset_sub_skip [OF Cons.prems], of k] Some False
      show ?thesis by (simp add: due_items_Cons)
    next
      case True
      from Cons.IH [OF mset_sub_step [OF Cons.prems], of "Suc k" "arrivals (env k)"]
        Some True assms(1) xq
      show ?thesis by (simp add: due_items_Cons Let_def)
    qed
  qed
qed

lemma items_first_failure:
  assumes "mset xs \<subseteq># mset q"
    and "j < length (due_items now xs)"
    and "\<forall>i<j. sent_ok (env (k + i))" and "\<not> sent_ok (env (k + j))"
  shows "outcome (auto_post_items now env xs k q) = PublishRaised (due_items now xs ! j)
       \<and> attempted (auto_post_items now env xs k q) = take (Suc j) (due_items now xs)
       \<and> published (auto_post_items now env xs k q) = take j (due_items now xs)"
  using assms
proof (induction xs arbitrary: k q j)
  case Nil
  then show ?case by (simp add: due_items_def)
next
  case (Cons x xs)
  note xq = mset_sub_head [OF Cons.prems(1)]
  show ?case
  proof (cases "strptime (time x)")
    case None
    with Cons.prems(2) show ?thesis by (simp add: due_items_Cons)
  next
    case (Some t)
    show ?thesis
    proof (cases "t \<le> now")
      case False
      from Cons.IH [OF mset_sub_skip [OF Cons.prems(1)], of j k] Cons.prems Some False
      show ?thesis by (simp add: due_items_Cons)
    next
      case True
      show ?thesis
      proof (cases j)
        case 0
        with Cons.prems Some True show ?thesis by (simp add: due_items_Cons)
      next
        case (Suc j')
        with Cons.prems have ok: "sent_ok (env k)" by auto
        have a: "j' < length (due_items now xs)"
          using Cons.prems(2) Some True Suc by (simp add: due_items_Cons)
        have b: "\<forall>i<j'. sent_ok (env (Suc k + i))" using Cons.prems(3) Suc by auto
        have c: "\<not> sent_ok (env (Suc k + j'))" using Cons.prems(4) Suc by simp
        from Cons.IH [OF mset_sub_step [OF Cons.prems(1)] a b c, of "arrivals (env k)"]
          Some True ok xq Suc
        show ?thesis by (simp add: due_items_Cons Let_def)
      qed
    qed
  qed
qed

lemma tick_conservation:
  "mset (queue_after (auto_post_loop now env q)) + mset (published (auto_post_loop now env q))
     = mset q + mset (arrived (auto_post_loop now env q))
   \<and> (\<forall>x. outcome (auto_post_loop now env q) \<noteq> RemoveRaised x)"
  using items_conservation [of q q now env 0] by (simp add: auto_post_loop_def Let_def)

section \<open>Splitting and reading the text\<close>







lemma split_max_exact:
  assumes "c \<notin> set a"
  shows "split_max c (Suc n) (a @ c # rest) = a # split_max c n rest"
proof -
  from assms have p: "\<And>x. x \<in> set a \<Longrightarrow> x \<noteq> c" by blast
  have "takeWhile (\<lambda>x. x \<noteq> c) (a @ c # rest) = a"
    using takeWhile_append2 [of a "\<lambda>x. x \<noteq> c" "c # rest"] p by simp
  moreover have "dropWhile (\<lambda>x. x \<noteq> c) (a @ c # rest) = c # rest"
    using dropWhile_append2 [of a "\<lambda>x. x \<noteq> c" "c # rest"] p by simp
  ultimately show ?thesis by simp
qed

lemma split_pipes:
  assumes "c \<notin> set x" and "c \<notin> set y" and "c \<notin> set z"
  shows "split_max c 3 (x @ c # y @ c # z @ c # m) = [x, y, z, m]"
proof -
  have "split_max c (Suc (Suc (Suc 0))) (x @ c # y @ c # z @ c # m) = x # y # z # split_max c 0 m"
    using assms by (simp only: split_max_exact simp_thms)
  then show ?thesis by (simp only: numeral_3_eq_3 split_max.simps(1))
qed

lemma split_cmd:
  "32 \<notin> set cmd \<Longrightarrow> split_max 32 (Suc 0) (cmd @ 32 # payload) = [cmd, payload]"
  using split_max_exact [of 32 cmd 0 payload] by (simp only: split_max.simps(1) simp_thms)









section \<open>The answers of \<open>/post\<close>\<close>




lemma post_appends: "\<exists>ys. fst (post msg now q) = q @ ys"
  by (simp add: post_def split: option.splits list.splits)

lemma post_accepts:
  assumes "32 \<notin> set cmd" and "124 \<notin> set a" and "124 \<notin> set b" and "124 \<notin> set c"
    and "py_int (strip m) = Some d"
    and "- 999999999 \<le> d div 1440" and "d div 1440 \<le> 999999999"
    and "0 \<le> t0 + d * 60000000" and "t0 + d * 60000000 \<le> datetime_max"
  shows "post (Some (cmd @ 32 # a @ 124 # b @ 124 # c @ 124 # m)) t0 q
       = (q @ [\<lparr>title = strip a, message = strip b, link = strip c,
                 time = (t0 + d * 60000000) div 1000000\<rparr>],
          Scheduled (t0 + d * 60000000))"
proof -
  have "split_max 124 3 (a @ 124 # b @ 124 # c @ 124 # m) = [a, b, c, m]"
    using assms(2-4) by (rule split_pipes)
  with assms split_cmd [OF assms(1), of "a @ 124 # b @ 124 # c @ 124 # m"] show ?thesis
    by (simp add: post_def timedelta_minutes_def datetime_add_def strftime_def
             del: split_max.simps)
qed

section \<open>Runs of ticks and commands\<close>

lemma run_conservation:
  "mset (delivered (run es q)) + mset (final_queue (run es q)) = mset q + mset (inserted (run es q))
   \<and> (\<forall>x. RemoveRaised x \<notin> set (outcomes (run es q)))"
proof (induction es arbitrary: q)
  case Nil
  then show ?case by simp
next
  case (Cons e es)
  show ?case
  proof (cases e)
    case (PostCmd msg now)
    obtain ys where ys: "fst (post msg now q) = q @ ys" using post_appends by blast
    from Cons.IH [of "q @ ys"] PostCmd ys show ?thesis by (simp add: Let_def)
  next
    case QueueCmd
    from Cons.IH [of q] QueueCmd show ?thesis by (simp add: queue_fst)
  next
    case (Tick now env)
    let ?t = "auto_post_loop now env q"
    from tick_conservation [of now env q]
    have c: "mset (queue_after ?t) + mset (published ?t) = mset q + mset (arrived ?t)"
      and o: "\<forall>x. outcome ?t \<noteq> RemoveRaised x" by simp_all
    from Cons.IH [of "queue_after ?t"]
    have ih: "mset (delivered (run es (queue_after ?t))) + mset (final_queue (run es (queue_after ?t)))
              = mset (queue_after ?t) + mset (inserted (run es (queue_after ?t)))"
      and ih2: "\<forall>x. RemoveRaised x \<notin> set (outcomes (run es (queue_after ?t)))" by simp_all
    have "mset (published ?t) + (mset (delivered (run es (queue_after ?t)))
            + mset (final_queue (run es (queue_after ?t))))
          = mset q + mset (arrived ?t) + mset (inserted (run es (queue_after ?t)))"
      using c ih by (simp add: ac_simps)
    moreover have "\<forall>x. RemoveRaised x \<noteq> outcome ?t" using o by (metis (no_types))
    ultimately show ?thesis using ih2 Tick by (auto simp: Let_def ac_simps)
  qed
qed

lemma run_selected:
  "selected (run es q) = delivered (run es q) \<or> raised_items (outcomes (run es q)) \<noteq> []"
proof (induction es arbitrary: q)
  case Nil
  then show ?case by simp
next
  case (Cons e es)
  show ?case
  proof (cases e)
    case (PostCmd msg now)
    with Cons.IH [of "fst (post msg now q)"] show ?thesis by (simp add: Let_def)
  next
    case QueueCmd
    with Cons.IH [of q] show ?thesis by (simp add: queue_fst)
  next
    case (Tick now env)
    let ?t = "auto_post_loop now env q"
    from items_attempted_published [of now env q 0 q]
    have "attempted ?t = published ?t
        @ (case outcome ?t of PublishRaised x \<Rightarrow> [x] | _ \<Rightarrow> [])"
      by (simp add: auto_post_loop_def)
    with Cons.IH [of "queue_after ?t"] Tick show ?thesis
      by (auto simp: Let_def raised_items_def split: tick_outcome.splits)
  qed
qed

lemma run_selected_mset:
  "mset (selected (run es q))
     = mset (delivered (run es q)) + mset (raised_items (outcomes (run es q)))"
proof (induction es arbitrary: q)
  case Nil
  then show ?case by (simp add: raised_items_def)
next
  case (Cons e es)
  show ?case
  proof (cases e)
    case (PostCmd msg now)
    with Cons.IH [of "fst (post msg now q)"] show ?thesis by (simp add: Let_def)
  next
    case QueueCmd
    with Cons.IH [of q] show ?thesis by (simp add: queue_fst)
  next
    case (Tick now env)
    let ?t = "auto_post_loop now env q"
    from items_attempted_published [of now env q 0 q]
    have "attempted ?t = published ?t
        @ (case outcome ?t of PublishRaised x \<Rightarrow> [x] | _ \<Rightarrow> [])"
      by (simp add: auto_post_loop_def)
    with Cons.IH [of "queue_after ?t"] Tick show ?thesis
      by (simp add: Let_def raised_items_def)
  qed
qed

lemma post_run_example:
  "post (Some (ustr ''/post d|e|f|1'')) 63839707200900000
      [\<lparr>title = ustr ''a'', message = ustr ''b'', link = ustr ''c'', time = 63839707200\<rparr>]
   = ([\<lparr>title = ustr ''a'', message = ustr ''b'', link = ustr ''c'', time = 63839707200\<rparr>,
       \<lparr>title = ustr ''d'', message = ustr ''e'', link = ustr ''f'', time = 63839707260\<rparr>],
      Scheduled 63839707260900000)"
  by code_simp

text \<open>
  C1. In every run of \<open>/post\<close> commands, \<open>/queue\<close> commands and ticks that follow one
  another (with any items appended while a tick waits for \<open>send_photo\<close>, and
  whatever calls raise), the items delivered and the items left in the queue are
  together exactly the items that were in the queue at the start and those
  inserted: an item is delivered at most as often as it was inserted, each
  delivery removes one occurrence of it, and \<open>list.remove\<close> never raises. The
  items selected are the items delivered and the items of the \<open>send_photo\<close>
  calls that raised; without such a call they are the items delivered, in the
  same order. The item of a \<open>send_photo\<close> call that raised was selected in that
  tick and is still in the queue after it.
\<close>

theorem dispatch_at_most_once:
  "mset (delivered (run es q)) + mset (final_queue (run es q)) = mset q + mset (inserted (run es q))
   \<and> count (mset (delivered (run es q))) x \<le> count (mset q + mset (inserted (run es q))) x
   \<and> (\<forall>y. RemoveRaised y \<notin> set (outcomes (run es q)))
   \<and> mset (selected (run es q))
       = mset (delivered (run es q)) + mset (raised_items (outcomes (run es q)))
   \<and> (raised_items (outcomes (run es q)) = [] \<longrightarrow> selected (run es q) = delivered (run es q))
   \<and> (outcome (auto_post_loop now env p) = PublishRaised y
        \<longrightarrow> y \<in> set (attempted (auto_post_loop now env p))
          \<and> y \<in> set (queue_after (auto_post_loop now env p)))"
proof -
  have c: "mset (delivered (run es q)) + mset (final_queue (run es q))
      = mset q + mset (inserted (run es q))"
    using run_conservation by blast
  have "count (mset (delivered (run es q))) x
      \<le> count (mset (delivered (run es q)) + mset (final_queue (run es q))) x"
    by simp
  with c have n: "count (mset (delivered (run es q))) x \<le> count (mset q + mset (inserted (run es q))) x"
    by simp
  have r: "y \<in> set (attempted (auto_post_loop now env p))
        \<and> y \<in> set (queue_after (auto_post_loop now env p))"
    if "outcome (auto_post_loop now env p) = PublishRaised y"
    using that items_raised_in_queue [of p p now env 0 y]
      items_attempted_published [of now env p 0 p]
    by (simp add: auto_post_loop_def)
  from c n r run_conservation [of es q] run_selected [of es q] run_selected_mset [of es q]
  show ?thesis by blast
qed

theorem dispatch_at_most_once_witness:
  "raised_items (outcomes (run [PostCmd (Some (ustr ''/post d|e|f|1'')) 63839707200900000,
          Tick 63839707220000000 (\<lambda>k. \<lparr>arrivals = [\<lparr>title = ustr ''g'', message = ustr ''h'', link = ustr ''i'', time = 63839707230\<rparr>], sent_ok = True\<rparr>),
          QueueCmd,
          Tick 63839707270000000 (\<lambda>k. \<lparr>arrivals = [], sent_ok = True\<rparr>)]
        [\<lparr>title = ustr ''a'', message = ustr ''b'', link = ustr ''c'', time = 63839707200\<rparr>])) = []
   \<and> selected (run [PostCmd (Some (ustr ''/post d|e|f|1'')) 63839707200900000,
          Tick 63839707220000000 (\<lambda>k. \<lparr>arrivals = [\<lparr>title = ustr ''g'', message = ustr ''h'', link = ustr ''i'', time = 63839707230\<rparr>], sent_ok = True\<rparr>),
          QueueCmd,
          Tick 63839707270000000 (\<lambda>k. \<lparr>arrivals = [], sent_ok = True\<rparr>)]
        [\<lparr>title = ustr ''a'', message = ustr ''b'', link = ustr ''c'', time = 63839707200\<rparr>])
     = [\<lparr>title = ustr ''a'', message = ustr ''b'', link = ustr ''c'', time = 63839707200\<rparr>,
        \<lparr>title = ustr ''d'', message = ustr ''e'', link = ustr ''f'', time = 63839707260\<rparr>,
        \<lparr>title = ustr ''g'', message = ustr ''h'', link = ustr ''i'', time = 63839707230\<rparr>]
   \<and> delivered (run [PostCmd (Some (ustr ''/post d|e|f|1'')) 63839707200900000,
          Tick 63839707220000000 (\<lambda>k. \<lparr>arrivals = [\<lparr>title = ustr ''g'', message = ustr ''h'', link = ustr ''i'', time = 63839707230\<rparr>], sent_ok = True\<rparr>),
          QueueCmd,
          Tick 63839707270000000 (\<lambda>k. \<lparr>arrivals = [], sent_ok = True\<rparr>)]
        [\<lparr>title = ustr ''a'', message = ustr ''b'', link = ustr ''c'', time = 63839707200\<rparr>])
     = [\<lparr>title = ustr ''a'', message = ustr ''b'', link = ustr ''c'', time = 63839707200\<rparr>,
        \<lparr>title = ustr ''d'', message = ustr ''e'', link = ustr ''f'', time = 63839707260\<rparr>,
        \<lparr>title = ustr ''g'', message = ustr ''h'', link = ustr ''i'', time = 63839707230\<rparr>]
   \<and> final_queue (run [PostCmd (Some (ustr ''/post d|e|f|1'')) 63839707200900000,
          Tick 63839707220000000 (\<lambda>k. \<lparr>arrivals = [\<lparr>title = ustr ''g'', message = ustr ''h'', link = ustr ''i'', time = 63839707230\<rparr>], sent_ok = True\<rparr>),
          QueueCmd,
          Tick 63839707270000000 (\<lambda>k. \<lparr>arrivals = [], sent_ok = True\<rparr>)]
        [\<lparr>title = ustr ''a'', message = ustr ''b'', link = ustr ''c'', time = 63839707200\<rparr>]) = []
   \<and> outcome (auto_post_loop 63839707220000000 (\<lambda>k. \<lparr>arrivals = [], sent_ok = False\<rparr>)
        [\<lparr>title = ustr ''a'', message = ustr ''b'', link = ustr ''c'', time = 63839707200\<rparr>])
     = PublishRaised \<lparr>title = ustr ''a'', message = ustr ''b'', link = ustr ''c'', time = 63839707200\<rparr>
   \<and> \<lparr>title = ustr ''a'', message = ustr ''b'', link = ustr ''c'', time = 63839707200\<rparr>
     \<in> set (queue_after (auto_post_loop 63839707220000000 (\<lambda>k. \<lparr>arrivals = [], sent_ok = False\<rparr>)
        [\<lparr>title = ustr ''a'', message = ustr ''b'', link = ustr ''c'', time = 63839707200\<rparr>]))"
  using dispatch_at_most_once [of "[PostCmd (Some (ustr ''/post d|e|f|1'')) 63839707200900000,
          Tick 63839707220000000 (\<lambda>k. \<lparr>arrivals = [\<lparr>title = ustr ''g'', message = ustr ''h'', link = ustr ''i'', time = 63839707230\<rparr>], sent_ok = True\<rparr>),
          QueueCmd,
          Tick 63839707270000000 (\<lambda>k. \<lparr>arrivals = [], sent_ok = True\<rparr>)]"
        "[\<lparr>title = ustr ''a'', message = ustr ''b'', link = ustr ''c'', time = 63839707200\<rparr>]" _ 63839707220000000
        "(\<lambda>k. \<lparr>arrivals = [], sent_ok = False\<rparr>)"
        "[\<lparr>title = ustr ''a'', message = ustr ''b'', link = ustr ''c'', time = 63839707200\<rparr>]"
        "\<lparr>title = ustr ''a'', message = ustr ''b'', link = ustr ''c'', time = 63839707200\<rparr>"]
  by (simp add: post_run_example queue_def auto_post_loop_def strptime_def year_1000_def
        raised_items_def Let_def)

text \<open>
  The item of a failed \<open>send_photo\<close> call stays in the queue: the next tick selects
  it again, so one scheduled item is selected by two ticks.
\<close>

theorem dispatch_twice_counterexample:
  "selected (run [Tick 63839707260000000 (\<lambda>k. \<lparr>arrivals = [], sent_ok = False\<rparr>),
                  Tick 63839707270000000 (\<lambda>k. \<lparr>arrivals = [], sent_ok = True\<rparr>)]
        [\<lparr>title = ustr ''d'', message = ustr ''e'', link = ustr ''f'', time = 63839707260\<rparr>])
   = [\<lparr>title = ustr ''d'', message = ustr ''e'', link = ustr ''f'', time = 63839707260\<rparr>,
      \<lparr>title = ustr ''d'', message = ustr ''e'', link = ustr ''f'', time = 63839707260\<rparr>]"
  by (simp add: auto_post_loop_def strptime_def year_1000_def Let_def)

section \<open>A failing publish call\<close>

text \<open>
  C2. When the \<open>send_photo\<close> call of a tick raises at its \<open>j\<close>-th due item, after
  \<open>j\<close> calls that returned, the tick ends there with that exception:
  \<open>send_photo\<close> was called for the first \<open>j + 1\<close> due items only, the first \<open>j\<close>
  were delivered and removed from the queue, and the failing item and every due
  item after it are still in the queue. (The due items are those of the part of
  the queue before the first item whose stored time \<open>strptime\<close> cannot read.)
\<close>

theorem publish_failure_aborts_tick:
  assumes "j < length (due_items now q)"
    and "\<forall>i<j. sent_ok (env i)" and "\<not> sent_ok (env j)"
  shows "outcome (auto_post_loop now env q) = PublishRaised (due_items now q ! j)
     \<and> attempted (auto_post_loop now env q) = take (Suc j) (due_items now q)
     \<and> published (auto_post_loop now env q) = take j (due_items now q)
     \<and> mset (queue_after (auto_post_loop now env q)) + mset (take j (due_items now q))
         = mset q + mset (arrived (auto_post_loop now env q))
     \<and> set (drop j (due_items now q)) \<subseteq> set (queue_after (auto_post_loop now env q))"
proof -
  let ?r = "auto_post_loop now env q" and ?due = "due_items now q"
  from items_first_failure [of q q j now env 0] assms
  have a: "outcome ?r = PublishRaised (?due ! j)" and b: "attempted ?r = take (Suc j) ?due"
    and c: "published ?r = take j ?due"
    by (simp_all add: auto_post_loop_def)
  from tick_conservation [of now env q] c
  have d: "mset (queue_after ?r) + mset (take j ?due) = mset q + mset (arrived ?r)" by simp
  have "mset (take j ?due) + mset (drop j ?due) = mset ?due"
    by (metis append_take_drop_id mset_append)
  moreover have "mset ?due \<subseteq># mset (takeWhile parses q)"
    by (simp add: due_items_def mset_filter)
  moreover have "mset (takeWhile parses q) \<subseteq># mset q"
    by (metis mset_subset_eq_add_left mset_append takeWhile_dropWhile_id)
  ultimately have "mset (take j ?due) + mset (drop j ?due)
      \<subseteq># mset (queue_after ?r) + mset (take j ?due)"
    using d by (metis subset_mset.order_trans mset_subset_eq_add_left)
  then have "mset (drop j ?due) \<subseteq># mset (queue_after ?r)"
    by (simp add: ac_simps)
  then have e: "set (drop j ?due) \<subseteq> set (queue_after ?r)"
    by (metis set_mset_mono set_mset_mset)
  from a b c d e show ?thesis by blast
qed

lemma due_items_example:
  "due_items 63839707260000000
       [\<lparr>title = ustr ''a'', message = ustr ''b'', link = ustr ''c'', time = 63839707200\<rparr>,
        \<lparr>title = ustr ''d'', message = ustr ''e'', link = ustr ''f'', time = 63839707260\<rparr>,
        \<lparr>title = ustr ''g'', message = ustr ''h'', link = ustr ''i'', time = 63839707230\<rparr>]
   = [\<lparr>title = ustr ''a'', message = ustr ''b'', link = ustr ''c'', time = 63839707200\<rparr>,
        \<lparr>title = ustr ''d'', message = ustr ''e'', link = ustr ''f'', time = 63839707260\<rparr>,
        \<lparr>title = ustr ''g'', message = ustr ''h'', link = ustr ''i'', time = 63839707230\<rparr>]"
  by (simp add: due_items_def parses_def is_due_def strptime_def year_1000_def)

theorem publish_failure_aborts_tick_witness:
  "(1::nat) < length (due_items 63839707260000000
       [\<lparr>title = ustr ''a'', message = ustr ''b'', link = ustr ''c'', time = 63839707200\<rparr>,
        \<lparr>title = ustr ''d'', message = ustr ''e'', link = ustr ''f'', time = 63839707260\<rparr>,
        \<lparr>title = ustr ''g'', message = ustr ''h'', link = ustr ''i'', time = 63839707230\<rparr>])
   \<and> sent_ok ((\<lambda>k. \<lparr>arrivals = [], sent_ok = (k = 0)\<rparr>) (0::nat))
   \<and> \<not> sent_ok ((\<lambda>k. \<lparr>arrivals = [], sent_ok = (k = 0)\<rparr>) (1::nat))
   \<and> outcome (auto_post_loop 63839707260000000 (\<lambda>k. \<lparr>arrivals = [], sent_ok = (k = 0)\<rparr>)
       [\<lparr>title = ustr ''a'', message = ustr ''b'', link = ustr ''c'', time = 63839707200\<rparr>,
        \<lparr>title = ustr ''d'', message = ustr ''e'', link = ustr ''f'', time = 63839707260\<rparr>,
        \<lparr>title = ustr ''g'', message = ustr ''h'', link = ustr ''i'', time = 63839707230\<rparr>])
     = PublishRaised \<lparr>title = ustr ''d'', message = ustr ''e'', link = ustr ''f'', time = 63839707260\<rparr>
   \<and> attempted (auto_post_loop 63839707260000000 (\<lambda>k. \<lparr>arrivals = [], sent_ok = (k = 0)\<rparr>)
       [\<lparr>title = ustr ''a'', message = ustr ''b'', link = ustr ''c'', time = 63839707200\<rparr>,
        \<lparr>title = ustr ''d'', message = ustr ''e'', link = ustr ''f'', time = 63839707260\<rparr>,
        \<lparr>title = ustr ''g'', message = ustr ''h'', link = ustr ''i'', time = 63839707230\<rparr>])
     = [\<lparr>title = ustr ''a'', message = ustr ''b'', link = ustr ''c'', time = 63839707200\<rparr>,
        \<lparr>title = ustr ''d'', message = ustr ''e'', link = ustr ''f'', time = 63839707260\<rparr>]
   \<and> published (auto_post_loop 63839707260000000 (\<lambda>k. \<lparr>arrivals = [], sent_ok = (k = 0)\<rparr>)
       [\<lparr>title = ustr ''a'', message = ustr ''b'', link = ustr ''c'', time = 63839707200\<rparr>,
        \<lparr>title = ustr ''d'', message = ustr ''e'', link = ustr ''f'', time = 63839707260\<rparr>,
        \<lparr>title = ustr ''g'', message = ustr ''h'', link = ustr ''i'', time = 63839707230\<rparr>])
     = [\<lparr>title = ustr ''a'', message = ustr ''b'', link = ustr ''c'', time = 63839707200\<rparr>]
   \<and> set [\<lparr>title = ustr ''d'', message = ustr ''e'', link = ustr ''f'', time = 63839707260\<rparr>,
           \<lparr>title = ustr ''g'', message = ustr ''h'', link = ustr ''i'', time = 63839707230\<rparr>]
     \<subseteq> set (queue_after (auto_post_loop 63839707260000000 (\<lambda>k. \<lparr>arrivals = [], sent_ok = (k = 0)\<rparr>)
       [\<lparr>title = ustr ''a'', message = ustr ''b'', link = ustr ''c'', time = 63839707200\<rparr>,
        \<lparr>title = ustr ''d'', message = ustr ''e'', link = ustr ''f'', time = 63839707260\<rparr>,
        \<lparr>title = ustr ''g'', message = ustr ''h'', link = ustr ''i'', time = 63839707230\<rparr>]))"
  using publish_failure_aborts_tick [of 1 63839707260000000
       "[\<lparr>title = ustr ''a'', message = ustr ''b'', link = ustr ''c'', time = 63839707200\<rparr>,
        \<lparr>title = ustr ''d'', message = ustr ''e'', link = ustr ''f'', time = 63839707260\<rparr>,
        \<lparr>title = ustr ''g'', message = ustr ''h'', link = ustr ''i'', time = 63839707230\<rparr>]"
       "(\<lambda>k. \<lparr>arrivals = [], sent_ok = (k = 0)\<rparr>)"]
  by (simp add: due_items_example)

text \<open>
  Two due items, the first \<open>send_photo\<close> call raises: the second item is not
  attempted in this tick, and the failing item has not been removed.
\<close>

theorem publish_failure_counterexample:
  "attempted (auto_post_loop 63839707260000000
       (\<lambda>k. \<lparr>arrivals = [], sent_ok = (k \<noteq> 0)\<rparr>)
       [\<lparr>title = ustr ''a'', message = ustr ''b'', link = ustr ''c'', time = 63839707200\<rparr>,
        \<lparr>title = ustr ''d'', message = ustr ''e'', link = ustr ''f'', time = 63839707260\<rparr>])
     = [\<lparr>title = ustr ''a'', message = ustr ''b'', link = ustr ''c'', time = 63839707200\<rparr>]
   \<and> queue_after (auto_post_loop 63839707260000000
       (\<lambda>k. \<lparr>arrivals = [], sent_ok = (k \<noteq> 0)\<rparr>)
       [\<lparr>title = ustr ''a'', message = ustr ''b'', link = ustr ''c'', time = 63839707200\<rparr>,
        \<lparr>title = ustr ''d'', message = ustr ''e'', link = ustr ''f'', time = 63839707260\<rparr>])
     = [\<lparr>title = ustr ''a'', message = ustr ''b'', link = ustr ''c'', time = 63839707200\<rparr>,
        \<lparr>title = ustr ''d'', message = ustr ''e'', link = ustr ''f'', time = 63839707260\<rparr>]
   \<and> is_due 63839707260000000 \<lparr>title = ustr ''d'', message = ustr ''e'', link = ustr ''f'', time = 63839707260\<rparr>"
  by (simp add: auto_post_loop_def is_due_def strptime_def year_1000_def)

section \<open>When an item becomes due\<close>

lemma strip_example: "strip (ustr ''a'') = ustr ''a'' \<and> strip (ustr ''b'') = ustr ''b''
    \<and> strip (ustr ''c'') = ustr ''c'' \<and> py_int (strip (ustr ''1'')) = Some 1"
  by code_simp

text \<open>
  C3. A \<open>/post\<close> command with three fields and a minutes field that reads as the
  integer \<open>d\<close>, handled at time \<open>t0\<close> with \<open>t0 + d\<close> minutes inside the range of
  datetime, appends one item: the three stripped fields and, as its stored time,
  \<open>t0 + d\<close> minutes cut to whole seconds. No tick selects the item before that
  stored time, and a tick before it leaves the item in the queue. A tick with
  \<open>now \<ge> t0 + d\<close> minutes publishes the item when it is in the part of the queue
  before the first item whose stored time \<open>strptime\<close> cannot read, and the
  \<open>send_photo\<close> calls of the tick all return.
\<close>

theorem dispatch_eligibility:
  assumes "32 \<notin> set cmd" and "124 \<notin> set a" and "124 \<notin> set b" and "124 \<notin> set c"
    and "py_int (strip m) = Some d"
    and "- 999999999 \<le> d div 1440" and "d div 1440 \<le> 999999999"
    and "0 \<le> t0 + d * 60000000" and "t0 + d * 60000000 \<le> datetime_max"
    and "x = \<lparr>title = strip a, message = strip b, link = strip c,
                time = (t0 + d * 60000000) div 1000000\<rparr>"
  shows "post (Some (cmd @ 32 # a @ 124 # b @ 124 # c @ 124 # m)) t0 q0
       = (q0 @ [x], Scheduled (t0 + d * 60000000))
     \<and> (x \<in> set (attempted (auto_post_loop now env q))
          \<longrightarrow> (t0 + d * 60000000) div 1000000 * 1000000 \<le> now)
     \<and> (x \<in> set q \<and> now < (t0 + d * 60000000) div 1000000 * 1000000
          \<longrightarrow> x \<in> set (queue_after (auto_post_loop now env q)))
     \<and> (x \<in> set (takeWhile parses q) \<and> t0 + d * 60000000 \<le> now \<and> (\<forall>k. sent_ok (env k))
          \<longrightarrow> x \<in> set (published (auto_post_loop now env q)))"
proof -
  let ?st = "t0 + d * 60000000"
  let ?r = "auto_post_loop now env q"
  have tx: "time x = ?st div 1000000" using assms(10) by simp
  have p: "post (Some (cmd @ 32 # a @ 124 # b @ 124 # c @ 124 # m)) t0 q0
       = (q0 @ [x], Scheduled ?st)"
    using post_accepts [OF assms(1-9), of q0] assms(10) by simp
  have early: "?st div 1000000 * 1000000 \<le> now" if "x \<in> set (attempted ?r)"
  proof -
    from items_attempted_due [of x now env q 0 q] that
    have "is_due now x" by (simp add: auto_post_loop_def)
    then show ?thesis
      by (simp add: is_due_def strptime_def tx split: if_splits)
  qed
  have stays: "x \<in> set (queue_after ?r)" if "x \<in> set q" "now < ?st div 1000000 * 1000000"
  proof -
    have "x \<notin> set (published ?r)"
    proof
      assume "x \<in> set (published ?r)"
      then have "x \<in> set (attempted ?r)"
        using items_attempted_published [of now env q 0 q] by (simp add: auto_post_loop_def)
      from early [OF this] that(2) show False by simp
    qed
    moreover have "set (queue_after ?r) \<union> set (published ?r) = set q \<union> set (arrived ?r)"
      using tick_conservation [of now env q] by (metis set_mset_mset set_mset_union)
    ultimately show ?thesis using that(1) by blast
  qed
  have late: "x \<in> set (published ?r)"
    if "x \<in> set (takeWhile parses q)" "?st \<le> now" "\<forall>k. sent_ok (env k)"
  proof -
    from that(1) have "parses x" by (rule set_takeWhileD [THEN conjunct2])
    then have "strptime (time x) = Some (?st div 1000000 * 1000000)"
      by (simp add: parses_def strptime_def tx split: if_splits)
    moreover have "?st div 1000000 * 1000000 \<le> ?st" by simp
    ultimately have "is_due now x" using that(2) by (simp add: is_due_def)
    with that(1) have "x \<in> set (due_items now q)" by (simp add: due_items_def)
    with items_all_sent [OF that(3), of q q now 0] show ?thesis
      by (simp add: auto_post_loop_def)
  qed
  from p early stays late show ?thesis by blast
qed

theorem dispatch_eligibility_witness:
  "32 \<notin> set (ustr ''/post'') \<and> 124 \<notin> set (ustr ''a'') \<and> 124 \<notin> set (ustr ''b'')
   \<and> 124 \<notin> set (ustr ''c'') \<and> py_int (strip (ustr ''1'')) = Some 1
   \<and> - 999999999 \<le> (1::int) div 1440 \<and> (1::int) div 1440 \<le> 999999999
   \<and> (0::int) \<le> 63839707200900000 + 1 * 60000000
   \<and> 63839707200900000 + 1 * 60000000 \<le> datetime_max
   \<and> post (Some (ustr ''/post'' @ 32 # ustr ''a'' @ 124 # ustr ''b'' @ 124 # ustr ''c''
                  @ 124 # ustr ''1'')) 63839707200900000 []
       = ([\<lparr>title = ustr ''a'', message = ustr ''b'', link = ustr ''c'', time = 63839707260\<rparr>], Scheduled 63839707260900000)
   \<and> \<lparr>title = ustr ''a'', message = ustr ''b'', link = ustr ''c'', time = 63839707260\<rparr>
       \<in> set (attempted (auto_post_loop 63839707261000000 (\<lambda>k. \<lparr>arrivals = [], sent_ok = True\<rparr>)
            [\<lparr>title = ustr ''a'', message = ustr ''b'', link = ustr ''c'', time = 63839707260\<rparr>]))
   \<and> (63839707200000000::int) < 63839707260000000
   \<and> \<lparr>title = ustr ''a'', message = ustr ''b'', link = ustr ''c'', time = 63839707260\<rparr>
       \<in> set (queue_after (auto_post_loop 63839707200000000 (\<lambda>k. \<lparr>arrivals = [], sent_ok = True\<rparr>)
            [\<lparr>title = ustr ''a'', message = ustr ''b'', link = ustr ''c'', time = 63839707260\<rparr>]))
   \<and> \<lparr>title = ustr ''a'', message = ustr ''b'', link = ustr ''c'', time = 63839707260\<rparr>
       \<in> set (takeWhile parses [\<lparr>title = ustr ''a'', message = ustr ''b'', link = ustr ''c'', time = 63839707260\<rparr>])
   \<and> (63839707260900000::int) \<le> 63839707261000000
   \<and> (\<forall>k. sent_ok ((\<lambda>k. \<lparr>arrivals = [], sent_ok = True\<rparr>) k))
   \<and> \<lparr>title = ustr ''a'', message = ustr ''b'', link = ustr ''c'', time = 63839707260\<rparr>
       \<in> set (published (auto_post_loop 63839707261000000 (\<lambda>k. \<lparr>arrivals = [], sent_ok = True\<rparr>)
            [\<lparr>title = ustr ''a'', message = ustr ''b'', link = ustr ''c'', time = 63839707260\<rparr>]))"
  using dispatch_eligibility [of "ustr ''/post''" "ustr ''a''" "ustr ''b''" "ustr ''c''"
      "ustr ''1''" 1 63839707200900000
      "\<lparr>title = ustr ''a'', message = ustr ''b'', link = ustr ''c'', time = 63839707260\<rparr>"
      "[]" 63839707261000000 "(\<lambda>k. \<lparr>arrivals = [], sent_ok = True\<rparr>)"
      "[\<lparr>title = ustr ''a'', message = ustr ''b'', link = ustr ''c'', time = 63839707260\<rparr>]"]
    strip_example
  by (simp add: datetime_max_def auto_post_loop_def strptime_def year_1000_def parses_def
        Let_def ustr_def)

text \<open>
  Posted at 12:00:00.9 with one minute, the item is stored as 12:01:00 and is
  published by a tick at 12:01:00.5, before \<open>t0 + d\<close>.
\<close>

lemma post_example:
  "post (Some (ustr ''/post a|b|c|1'')) 63839707200900000 []
     = ([\<lparr>title = ustr ''a'', message = ustr ''b'', link = ustr ''c'', time = 63839707260\<rparr>], Scheduled 63839707260900000)"
  by code_simp

theorem dispatch_early_counterexample:
  "post (Some (ustr ''/post a|b|c|1'')) 63839707200900000 []
     = ([\<lparr>title = ustr ''a'', message = ustr ''b'', link = ustr ''c'', time = 63839707260\<rparr>],
        Scheduled (63839707200900000 + 1 * 60000000))
   \<and> attempted (auto_post_loop 63839707260500000 (\<lambda>k. \<lparr>arrivals = [], sent_ok = True\<rparr>)
        [\<lparr>title = ustr ''a'', message = ustr ''b'', link = ustr ''c'', time = 63839707260\<rparr>])
     = [\<lparr>title = ustr ''a'', message = ustr ''b'', link = ustr ''c'', time = 63839707260\<rparr>]
   \<and> (63839707260500000::int) < 63839707200900000 + 1 * 60000000"
  by (simp add: post_example auto_post_loop_def strptime_def year_1000_def Let_def)

section \<open>Malformed \<open>/post\<close> commands\<close>





section \<open>Polling for the voice clip\<close>

lemma poll_step_pending:
  assumes "reports_pending (env k)"
  shows "poll_loop timeout env start k clock =
     (if clock + int (latency (env k)) - start > timeout
      then \<lparr>result = Inl TimeoutError, polls = Suc k, finished = clock + int (latency (env k))\<rparr>
      else poll_loop timeout env start (Suc k) (clock + int (latency (env k)) + 2000000))"
  using assms
  by (subst poll_loop.simps) (auto simp: reports_pending_def Let_def split: status_response.splits)

lemma poll_step_done:
  assumes "response (env k) = StatusJson (Some ''done'') url"
  shows "poll_loop timeout env start k clock =
     \<lparr>result = Inr url, polls = Suc k, finished = clock + int (latency (env k))\<rparr>"
  using assms by (subst poll_loop.simps) (simp add: Let_def)

lemma poll_all_pending:
  assumes "\<forall>j. reports_pending (env j)"
    and "2000000 * int k \<le> clock - start" and "clock - start \<le> timeout + 2000000"
  shows "result (poll_loop timeout env start k clock) = Inl TimeoutError
     \<and> k < polls (poll_loop timeout env start k clock)
     \<and> int (polls (poll_loop timeout env start k clock)) \<le> timeout div 2000000 + 2
     \<and> finished (poll_loop timeout env start k clock) - start
         \<le> timeout + 2000000 + int (latency (env (polls (poll_loop timeout env start k clock) - 1)))"
  using assms
proof (induction timeout env start k clock rule: poll_loop.induct)
  case (1 timeout env start k clock)
  let ?c1 = "clock + int (latency (env k))"
  from "1.prems"(1) have pend: "reports_pending (env k)" by simp
  then obtain st url where resp: "response (env k) = StatusJson st url" and nd: "st \<noteq> Some ''done''"
    by (auto simp: reports_pending_def split: status_response.splits)
  note step = poll_step_pending [of env k timeout start clock, OF pend]
  show ?case
  proof (cases "?c1 - start > timeout")
    case True
    have "int (Suc k) \<le> timeout div 2000000 + 2" using "1.prems"(2,3) by simp
    with True "1.prems" show ?thesis by (simp add: step)
  next
    case False
    have a: "2000000 * int (Suc k) \<le> ?c1 + 2000000 - start" using "1.prems"(2) by simp
    have b: "?c1 + 2000000 - start \<le> timeout + 2000000" using False by simp
    from "1.IH" [OF refl resp nd False "1.prems"(1) a b] False
    show ?thesis by (simp add: step)
  qed
qed


lemma poll_reaches_done:
  assumes "\<forall>j<n. reports_pending (env (k + j))"
    and "response (env (k + n)) = StatusJson (Some ''done'') url"
    and "0 < n \<longrightarrow> clock - start + (\<Sum>j<n. int (latency (env (k + j)))) + 2000000 * int (n - 1) \<le> timeout"
  shows "poll_loop timeout env start k clock =
     \<lparr>result = Inr url, polls = Suc (k + n),
      finished = clock + (\<Sum>j<Suc n. int (latency (env (k + j)))) + 2000000 * int n\<rparr>"
  using assms
proof (induction n arbitrary: k clock)
  case 0
  then show ?case by (simp add: poll_step_done)
next
  case (Suc n)
  from Suc.prems(1) have pend: "reports_pending (env k)" by force
  note step = poll_step_pending [of env k timeout start clock, OF pend]
  have shift: "(\<Sum>j<Suc m. int (latency (env (k + j))))
      = int (latency (env k)) + (\<Sum>j<m. int (latency (env (Suc k + j))))" for m
    by (simp add: sum.lessThan_Suc_shift del: sum.lessThan_Suc)
  have nonneg: "0 \<le> (\<Sum>j<n. int (latency (env (Suc k + j))))"
    by (rule sum_nonneg) simp
  from Suc.prems(3) have budget:
    "clock - start + int (latency (env k)) + (\<Sum>j<n. int (latency (env (Suc k + j)))) + 2000000 * int n \<le> timeout"
    by (simp only: shift) simp
  with nonneg have pass: "\<not> clock + int (latency (env k)) - start > timeout" by simp
  have a: "\<forall>j<n. reports_pending (env (Suc k + j))" using Suc.prems(1) by auto
  have b: "response (env (Suc k + n)) = StatusJson (Some ''done'') url" using Suc.prems(2) by simp
  have c: "0 < n \<longrightarrow> clock + int (latency (env k)) + 2000000 - start
       + (\<Sum>j<n. int (latency (env (Suc k + j)))) + 2000000 * int (n - 1) \<le> timeout"
    using budget by (cases n) (simp_all add: algebra_simps)
  from Suc.IH [OF a b c] pass show ?case
    by (simp only: step shift [of "Suc n"]) (simp add: algebra_simps)
qed


text \<open>
  C5. When every status response reports a status other than \<open>done\<close> and the
  timeout is not negative, \<open>generate_voice\<close> raises TimeoutError, after at most
  \<open>timeout_seconds div 2 + 2\<close> status requests, and no later after its start than
  the timeout, plus the two seconds of a sleep, plus the latency of the last
  request.
\<close>

theorem generate_voice_timeout:
  assumes "\<forall>k. reports_pending (env k)" and "0 \<le> timeout_seconds"
  shows "result (generate_voice (SubmitOk clip_id) env start timeout_seconds) = Inl TimeoutError
     \<and> polls (generate_voice (SubmitOk clip_id) env start timeout_seconds)
         \<le> nat (timeout_seconds div 2) + 2
     \<and> finished (generate_voice (SubmitOk clip_id) env start timeout_seconds) - start
         \<le> timeout_seconds * 1000000 + 2000000
           + int (latency (env (polls (generate_voice (SubmitOk clip_id) env start timeout_seconds) - 1)))"
proof -
  let ?r = "poll_loop (timeout_seconds * 1000000) env start 0 start"
  have "start - start \<le> timeout_seconds * 1000000 + 2000000" using assms(2) by simp
  from poll_all_pending [OF assms(1) _ this, of 0]
  have a: "result ?r = Inl TimeoutError"
    and b: "int (polls ?r) \<le> timeout_seconds * 1000000 div 2000000 + 2"
    and c: "finished ?r - start \<le> timeout_seconds * 1000000 + 2000000 + int (latency (env (polls ?r - 1)))"
    by simp_all
  have "timeout_seconds * 1000000 div 2000000 = timeout_seconds div 2" by simp
  with b assms(2) have "polls ?r \<le> nat (timeout_seconds div 2) + 2" by simp
  with a c show ?thesis by (simp add: generate_voice_def)
qed

theorem generate_voice_timeout_witness:
  "(\<forall>k. reports_pending ((\<lambda>k. \<lparr>response = StatusJson (Some ''pending'') None, latency = 300000\<rparr>) k))
   \<and> (0::int) \<le> 30
   \<and> result (generate_voice (SubmitOk ''42'')
         (\<lambda>k. \<lparr>response = StatusJson (Some ''pending'') None, latency = 300000\<rparr>) 0 30)
       = Inl TimeoutError
   \<and> polls (generate_voice (SubmitOk ''42'')
         (\<lambda>k. \<lparr>response = StatusJson (Some ''pending'') None, latency = 300000\<rparr>) 0 30) \<le> 17"
  using generate_voice_timeout [of "\<lambda>k. \<lparr>response = StatusJson (Some ''pending'') None, latency = 300000\<rparr>"
      30 "''42''" 0]
  by (simp add: reports_pending_def)

text \<open>
  Sixteen immediate responses and a seventeenth that takes five seconds, with the
  timeout of 30 seconds: TimeoutError is raised 37 seconds after the start, later
  than the timeout plus one sleep, at the seventeenth request.
\<close>

theorem generate_voice_late_timeout_counterexample:
  "result (generate_voice (SubmitOk ''42'')
      (\<lambda>k. \<lparr>response = StatusJson (Some ''pending'') None,
             latency = (if k < 16 then 0 else 5000000)\<rparr>) 0 30) = Inl TimeoutError
   \<and> polls (generate_voice (SubmitOk ''42'')
      (\<lambda>k. \<lparr>response = StatusJson (Some ''pending'') None,
             latency = (if k < 16 then 0 else 5000000)\<rparr>) 0 30) = 17
   \<and> finished (generate_voice (SubmitOk ''42'')
      (\<lambda>k. \<lparr>response = StatusJson (Some ''pending'') None,
             latency = (if k < 16 then 0 else 5000000)\<rparr>) 0 30) = 37000000
   \<and> (30 * 1000000 + 2000000 :: int) < 37000000"
  by (simp add: generate_voice_def poll_step_pending poll_step_done reports_pending_def)

text \<open>
  C6. When the \<open>N\<close>-th status response is the first to report \<open>done\<close>, and \<open>N\<close>
  sleeps of two seconds together with the latencies of the requests before the
  \<open>N\<close>-th fit in the timeout, \<open>generate_voice\<close> returns the \<open>download_url\<close> of
  that response after exactly \<open>N\<close> requests.
\<close>

theorem generate_voice_done:
  assumes "0 < N" and "\<forall>k<N - 1. reports_pending (env k)"
    and "response (env (N - 1)) = StatusJson (Some ''done'') url"
    and "(\<Sum>k<N - 1. int (latency (env k))) + 2000000 * int N \<le> timeout_seconds * 1000000"
  shows "result (generate_voice (SubmitOk clip_id) env start timeout_seconds) = Inr url
     \<and> polls (generate_voice (SubmitOk clip_id) env start timeout_seconds) = N"
proof -
  let ?t = "timeout_seconds * 1000000"
  from assms(2) have a: "\<forall>j<N - 1. reports_pending (env (0 + j))" by simp
  from assms(3) have b: "response (env (0 + (N - 1))) = StatusJson (Some ''done'') url" by simp
  have "start - start + (\<Sum>j<N - 1. int (latency (env (0 + j)))) + 2000000 * int (N - 1 - 1) \<le> ?t"
    using assms(4) by simp
  then have c: "0 < N - 1 \<longrightarrow> start - start + (\<Sum>j<N - 1. int (latency (env (0 + j))))
      + 2000000 * int (N - 1 - 1) \<le> ?t" by blast
  from poll_reaches_done [OF a b c] assms(1) show ?thesis by (simp add: generate_voice_def)
qed

theorem generate_voice_done_witness:
  "(0::nat) < 4
   \<and> reports_pending ((\<lambda>k. if k < 3 then \<lparr>response = StatusJson (Some ''pending'') None, latency = 300000\<rparr>
        else \<lparr>response = StatusJson (Some ''done'') (Some ''U''), latency = 300000\<rparr>) (0::nat))
   \<and> reports_pending ((\<lambda>k. if k < 3 then \<lparr>response = StatusJson (Some ''pending'') None, latency = 300000\<rparr>
        else \<lparr>response = StatusJson (Some ''done'') (Some ''U''), latency = 300000\<rparr>) (1::nat))
   \<and> reports_pending ((\<lambda>k. if k < 3 then \<lparr>response = StatusJson (Some ''pending'') None, latency = 300000\<rparr>
        else \<lparr>response = StatusJson (Some ''done'') (Some ''U''), latency = 300000\<rparr>) (2::nat))
   \<and> response ((\<lambda>k. if k < 3 then \<lparr>response = StatusJson (Some ''pending'') None, latency = 300000\<rparr>
        else \<lparr>response = StatusJson (Some ''done'') (Some ''U''), latency = 300000\<rparr>) (3::nat)) = StatusJson (Some ''done'') (Some ''U'')
   \<and> (3 * 300000 + 2000000 * 4 :: int) \<le> 30 * 1000000
   \<and> result (generate_voice (SubmitOk ''42'')
        (\<lambda>k. if k < 3 then \<lparr>response = StatusJson (Some ''pending'') None, latency = 300000\<rparr>
        else \<lparr>response = StatusJson (Some ''done'') (Some ''U''), latency = 300000\<rparr>) 0 30) = Inr (Some ''U'')
   \<and> polls (generate_voice (SubmitOk ''42'')
        (\<lambda>k. if k < 3 then \<lparr>response = StatusJson (Some ''pending'') None, latency = 300000\<rparr>
        else \<lparr>response = StatusJson (Some ''done'') (Some ''U''), latency = 300000\<rparr>) 0 30) = 4"
proof -
  let ?env = "(\<lambda>k. if k < 3 then \<lparr>response = StatusJson (Some ''pending'') None, latency = 300000\<rparr>
        else \<lparr>response = StatusJson (Some ''done'') (Some ''U''), latency = 300000\<rparr>)"
  have h1: "(0::nat) < 4" by simp
  have h2: "\<forall>k<(4::nat) - 1. reports_pending (?env k)" by (simp add: reports_pending_def)
  have h3: "response (?env ((4::nat) - 1)) = StatusJson (Some ''done'') (Some ''U'')" by simp
  have "(\<Sum>k<Suc (Suc (Suc 0)). int (latency (?env k))) = 900000" by simp
  then have "(\<Sum>k<(4::nat) - 1. int (latency (?env k))) = 900000"
    by (simp only: numeral_3_eq_3 [symmetric]) simp
  then have h4: "(\<Sum>k<(4::nat) - 1. int (latency (?env k))) + 2000000 * int 4 \<le> 30 * 1000000"
    by simp
  from generate_voice_done [OF h1 h2 h3 h4] show ?thesis by (simp add: reports_pending_def)
qed

text \<open>
  Three pending responses that take ten seconds each, then \<open>done\<close>, with the
  timeout of 30 seconds: four sleeps fit in the timeout, but the third response
  is read 34 seconds after the start and TimeoutError is raised after three
  requests.
\<close>

theorem generate_voice_slow_counterexample:
  "reports_pending ((\<lambda>k. if k < 3 then \<lparr>response = StatusJson (Some ''pending'') None,
                             latency = 10000000\<rparr>
           else \<lparr>response = StatusJson (Some ''done'') (Some ''U''), latency = 0\<rparr>) (0::nat))
   \<and> reports_pending ((\<lambda>k. if k < 3 then \<lparr>response = StatusJson (Some ''pending'') None,
                             latency = 10000000\<rparr>
           else \<lparr>response = StatusJson (Some ''done'') (Some ''U''), latency = 0\<rparr>) (1::nat))
   \<and> reports_pending ((\<lambda>k. if k < 3 then \<lparr>response = StatusJson (Some ''pending'') None,
                             latency = 10000000\<rparr>
           else \<lparr>response = StatusJson (Some ''done'') (Some ''U''), latency = 0\<rparr>) (2::nat))
   \<and> response ((\<lambda>k. if k < 3 then \<lparr>response = StatusJson (Some ''pending'') None,
                             latency = 10000000\<rparr>
           else \<lparr>response = StatusJson (Some ''done'') (Some ''U''), latency = 0\<rparr>) (3::nat)) = StatusJson (Some ''done'') (Some ''U'')
   \<and> (4 * 2000000 :: int) \<le> 30 * 1000000
   \<and> result (generate_voice (SubmitOk ''42'')
        (\<lambda>k. if k < 3 then \<lparr>response = StatusJson (Some ''pending'') None,
                             latency = 10000000\<rparr>
           else \<lparr>response = StatusJson (Some ''done'') (Some ''U''), latency = 0\<rparr>) 0 30) = Inl TimeoutError
   \<and> polls (generate_voice (SubmitOk ''42'')
        (\<lambda>k. if k < 3 then \<lparr>response = StatusJson (Some ''pending'') None,
                             latency = 10000000\<rparr>
           else \<lparr>response = StatusJson (Some ''done'') (Some ''U''), latency = 0\<rparr>) 0 30) = 3
   \<and> finished (generate_voice (SubmitOk ''42'')
        (\<lambda>k. if k < 3 then \<lparr>response = StatusJson (Some ''pending'') None,
                             latency = 10000000\<rparr>
           else \<lparr>response = StatusJson (Some ''done'') (Some ''U''), latency = 0\<rparr>) 0 30) = 34000000"
  by (simp add: generate_voice_def poll_step_pending poll_step_done reports_pending_def)




end
